theory Spec2Isabelle
  imports Main "HOL-Library.Char_ord"
begin

section \<open>Data model (src/types.ts)\<close>

text \<open>
  A field value is a string (text and select fields) or a boolean (boolean fields).
  A JavaScript property that is missing, or holds \<^verbatim>\<open>undefined\<close>, is \<open>None\<close>.
\<close>

datatype jsval = Str string | Bool bool

datatype FieldType = Text | Select | Boolean

text \<open>
  \<^verbatim>\<open>ValidationRule: (value: any) => string | undefined\<close>; the rule is applied to
  \<^verbatim>\<open>field.value\<close>, which is \<^verbatim>\<open>undefined\<close> before the first \<^verbatim>\<open>setValue\<close>.
  \<^verbatim>\<open>ConditionalRule: (values: Record<string, string | boolean>) => boolean\<close>; the record
  is the object built by \<^verbatim>\<open>getValues\<close>, where a key can be present with the value
  \<^verbatim>\<open>undefined\<close> (\<open>Some None\<close>).
\<close>

type_synonym ValidationRule = "jsval option \<Rightarrow> string option"

type_synonym Values = "string \<rightharpoonup> jsval option"

type_synonym ConditionalRule = "Values \<Rightarrow> bool"

text \<open>
  A field object. \<^verbatim>\<open>addField\<close> stores \<^verbatim>\<open>{ type, name }\<close> only and the setters add
  the other properties one at a time, so every property is optional in the objects the
  code builds; \<open>errors\<close> and \<open>visible\<close> are the properties written by \<^verbatim>\<open>validate\<close>
  and \<^verbatim>\<open>checkVisibility\<close>. The source's \<^verbatim>\<open>type\<close> and \<^verbatim>\<open>value\<close> are \<open>ftype\<close> and
  \<open>val\<close> here.
\<close>

record Field =
  ftype :: "FieldType option"
  name :: "string option"
  val :: "jsval option"
  options :: "string list option"
  defaultVisibility :: "bool option"
  validationRules :: "ValidationRule list option"
  conditionalRules :: "ConditionalRule list option"
  errors :: "string list option"
  visible :: "bool option"

text \<open>The form; its \<^verbatim>\<open>name\<close> and \<^verbatim>\<open>fields\<close> properties are \<open>formName\<close> and
  \<open>formFields\<close> here.\<close>

record Form =
  formName :: string
  formFields :: "Field list"

text \<open>The object \<^verbatim>\<open>{}\<close>, seen as a field with no property.\<close>

definition emptyObject :: Field where
  "emptyObject =
     \<lparr>ftype = None, name = None, val = None, options = None, defaultVisibility = None,
      validationRules = None, conditionalRules = None, errors = None, visible = None\<rparr>"

section \<open>The Ramda functions the source calls\<close>

text \<open>
  \<^verbatim>\<open>R.propEq("name", fieldName)\<close>: the object's \<^verbatim>\<open>name\<close> property equals the string
  \<^verbatim>\<open>fieldName\<close>. An object with no \<^verbatim>\<open>name\<close> is equal to no string.
\<close>

definition R_propEq_name :: "string \<Rightarrow> Field \<Rightarrow> bool" where
  "R_propEq_name fieldName obj = (name obj = Some fieldName)"

text \<open>\<^verbatim>\<open>R.find\<close>: the first element satisfying the predicate, \<^verbatim>\<open>undefined\<close> if none.\<close>

fun R_find :: "('a \<Rightarrow> bool) \<Rightarrow> 'a list \<Rightarrow> 'a option" where
  "R_find fn [] = None"
| "R_find fn (x # xs) = (if fn x then Some x else R_find fn xs)"

text \<open>
  \<^verbatim>\<open>R.findIndex\<close>: a loop over \<^verbatim>\<open>idx = 0, 1, ...\<close> returning the first index whose
  element satisfies the predicate, and \<^verbatim>\<open>-1\<close> after the loop.
\<close>

fun findIndex_from :: "nat \<Rightarrow> ('a \<Rightarrow> bool) \<Rightarrow> 'a list \<Rightarrow> int" where
  "findIndex_from idx fn [] = - 1"
| "findIndex_from idx fn (x # xs) = (if fn x then int idx else findIndex_from (Suc idx) fn xs)"

definition R_findIndex :: "('a \<Rightarrow> bool) \<Rightarrow> 'a list \<Rightarrow> int" where
  "R_findIndex fn list = findIndex_from 0 fn list"

text \<open>
  \<^verbatim>\<open>R.adjust(idx, fn, list)\<close>:
  \<^verbatim>\<open>
  var len = list.length;
  if (idx >= len || idx < -len) { return list; }
  var _idx = (len + idx) % len;
  var _list = _concat(list);
  _list[_idx] = fn(list[_idx]);
  return _list;
  \<close>
  An index outside \<^verbatim>\<open>-len .. len - 1\<close> gives the list back as it is. Past the guard
  \<^verbatim>\<open>len + idx\<close> is not negative, so the remainder \<^verbatim>\<open>%\<close> is \<open>mod\<close>.
  \<^verbatim>\<open>R.update(idx, x, list)\<close> is \<^verbatim>\<open>adjust(idx, always(x), list)\<close>.
\<close>

definition R_adjust :: "int \<Rightarrow> ('a \<Rightarrow> 'a) \<Rightarrow> 'a list \<Rightarrow> 'a list" where
  "R_adjust idx fn list =
     (let len = int (length list) in
      if idx \<ge> len \<or> idx < - len then list
      else (let i = nat ((len + idx) mod len) in list[i := fn (list ! i)]))"

definition R_update :: "int \<Rightarrow> 'a \<Rightarrow> 'a list \<Rightarrow> 'a list" where
  "R_update idx x list = R_adjust idx (\<lambda>_. x) list"

definition R_length :: "'a list \<Rightarrow> int" where
  "R_length list = int (length list)"

text \<open>
  \<^verbatim>\<open>R.append(el, list)\<close> is \<^verbatim>\<open>_concat(list, [el])\<close>, and \<^verbatim>\<open>_concat\<close> starts with
  \<^verbatim>\<open>set1 = set1 || []\<close>: appending to \<^verbatim>\<open>undefined\<close> gives the one-element list.
  \<open>R_append\<close> is the function on a list, \<open>R_append_undef\<close> the same function on a
  property that can be missing.
\<close>

definition R_append :: "'a \<Rightarrow> 'a list \<Rightarrow> 'a list" where
  "R_append el list = list @ [el]"

definition R_append_undef :: "'a \<Rightarrow> 'a list option \<Rightarrow> 'a list option" where
  "R_append_undef el list = Some (R_append el (case list of None \<Rightarrow> [] | Some l \<Rightarrow> l))"

subsection \<open>Lenses\<close>

text \<open>
  \<^verbatim>\<open>R.lens(getter, setter)\<close>. The source gives focus and result of the two functions
  different types (the getter of \<^verbatim>\<open>field\<close> returns a field or \<^verbatim>\<open>undefined\<close>, its
  setter takes a field), so the record has four type parameters:
  the getter reads an \<open>'a\<close> in an \<open>'s\<close>, the setter puts a \<open>'b\<close> into an \<open>'s\<close> and
  returns a \<open>'t\<close>.
\<close>

record ('s, 't, 'a, 'b) lens =
  getter :: "'s \<Rightarrow> 'a"
  setter :: "'b \<Rightarrow> 's \<Rightarrow> 't"

definition R_lens :: "('s \<Rightarrow> 'a) \<Rightarrow> ('b \<Rightarrow> 's \<Rightarrow> 't) \<Rightarrow> ('s, 't, 'a, 'b) lens" where
  "R_lens g s = \<lparr>getter = g, setter = s\<rparr>"

text \<open>
  \<^verbatim>\<open>R.view\<close>, \<^verbatim>\<open>R.over\<close> and \<^verbatim>\<open>R.set\<close> (\<^verbatim>\<open>over(lens, always(v), x)\<close>), and the
  composition of two lenses, outer lens first as in \<^verbatim>\<open>R.compose(outer, inner)\<close>.
\<close>

definition R_view :: "('s, 't, 'a, 'b) lens \<Rightarrow> 's \<Rightarrow> 'a" where
  "R_view l x = getter l x"

definition R_over :: "('s, 't, 'a, 'b) lens \<Rightarrow> ('a \<Rightarrow> 'b) \<Rightarrow> 's \<Rightarrow> 't" where
  "R_over l f x = setter l (f (getter l x)) x"

definition R_set :: "('s, 't, 'a, 'b) lens \<Rightarrow> 'b \<Rightarrow> 's \<Rightarrow> 't" where
  "R_set l v x = R_over l (\<lambda>_. v) x"

definition R_compose ::
  "('s, 't, 'a, 'b) lens \<Rightarrow> ('a, 'b, 'c, 'd) lens \<Rightarrow> ('s, 't, 'c, 'd) lens" where
  "R_compose outer inner =
     R_lens (\<lambda>x. getter inner (getter outer x))
            (\<lambda>v x. setter outer (setter inner v (getter outer x)) x)"

text \<open>
  \<^verbatim>\<open>R.lensProp(p)\<close> is \<^verbatim>\<open>lens(prop(p), assoc(p))\<close>. On the form the two properties
  always exist. On a field the lens is applied to what the getter of \<^verbatim>\<open>field\<close>
  returned, which is \<^verbatim>\<open>undefined\<close> when no field matched: \<^verbatim>\<open>prop(p, undefined)\<close> is
  \<^verbatim>\<open>undefined\<close>, and \<^verbatim>\<open>assoc(p, v, undefined)\<close> copies no property and returns
  \<^verbatim>\<open>{ [p]: v }\<close>.
\<close>

definition formNameLens :: "(Form, Form, string, string) lens" where
  "formNameLens = R_lens formName (\<lambda>v obj. obj\<lparr>formName := v\<rparr>)"

definition fieldsLens :: "(Form, Form, Field list, Field list) lens" where
  "fieldsLens = R_lens formFields (\<lambda>v obj. obj\<lparr>formFields := v\<rparr>)"

definition copyOf :: "Field option \<Rightarrow> Field" where
  "copyOf obj = (case obj of None \<Rightarrow> emptyObject | Some x \<Rightarrow> x)"

definition lensProp_value :: "(Field option, Field, jsval option, jsval option) lens" where
  "lensProp_value =
     R_lens (\<lambda>obj. case obj of None \<Rightarrow> None | Some x \<Rightarrow> val x)
            (\<lambda>v obj. (copyOf obj)\<lparr>val := v\<rparr>)"

definition lensProp_options ::
  "(Field option, Field, string list option, string list option) lens" where
  "lensProp_options =
     R_lens (\<lambda>obj. case obj of None \<Rightarrow> None | Some x \<Rightarrow> options x)
            (\<lambda>v obj. (copyOf obj)\<lparr>options := v\<rparr>)"

definition lensProp_defaultVisibility ::
  "(Field option, Field, bool option, bool option) lens" where
  "lensProp_defaultVisibility =
     R_lens (\<lambda>obj. case obj of None \<Rightarrow> None | Some x \<Rightarrow> defaultVisibility x)
            (\<lambda>v obj. (copyOf obj)\<lparr>defaultVisibility := v\<rparr>)"

definition lensProp_validationRules ::
  "(Field option, Field, ValidationRule list option, ValidationRule list option) lens" where
  "lensProp_validationRules =
     R_lens (\<lambda>obj. case obj of None \<Rightarrow> None | Some x \<Rightarrow> validationRules x)
            (\<lambda>v obj. (copyOf obj)\<lparr>validationRules := v\<rparr>)"

definition lensProp_conditionalRules ::
  "(Field option, Field, ConditionalRule list option, ConditionalRule list option) lens" where
  "lensProp_conditionalRules =
     R_lens (\<lambda>obj. case obj of None \<Rightarrow> None | Some x \<Rightarrow> conditionalRules x)
            (\<lambda>v obj. (copyOf obj)\<lparr>conditionalRules := v\<rparr>)"

section \<open>Regular expressions\<close>

text \<open>
  The source's only regular expression is the literal
  \<^verbatim>\<open>/^[A-Z0-9._%+-]+@[A-Z0-9.-]+\.[A-Z]{2,}$/i\<close>: between the anchors \<^verbatim>\<open>^\<close> and
  \<^verbatim>\<open>$\<close> (no \<^verbatim>\<open>m\<close> flag: start and end of the input) a sequence of pieces, each an
  atom (a character class, given by its inclusive ranges, or one literal character)
  matched once or at least \<open>n\<close> times (\<^verbatim>\<open>+\<close> is \<open>AtLeast 1\<close>, \<^verbatim>\<open>{2,}\<close> is
  \<open>AtLeast 2\<close>).
\<close>

datatype atom = CharClass "(char \<times> char) list" | Literal char

datatype quantifier = Once | AtLeast nat

record regex =
  pieces :: "(atom \<times> quantifier) list"
  ignoreCase :: bool

text \<open>
  With the \<^verbatim>\<open>i\<close> flag and without the \<^verbatim>\<open>u\<close> flag a character is compared after
  \<open>Canonicalize\<close>, which maps it to its upper case; a character outside ASCII is never
  mapped into ASCII, and the atoms of the source's expression are all ASCII, so only the
  mapping of \<^verbatim>\<open>a-z\<close> to \<^verbatim>\<open>A-Z\<close> matters here. An atom matches a character when some
  member of the atom has the same canonical form.
\<close>

definition canonicalize :: "bool \<Rightarrow> char \<Rightarrow> char" where
  "canonicalize ic ch =
     (if ic \<and> CHR ''a'' \<le> ch \<and> ch \<le> CHR ''z'' then char_of (of_char ch - (32::nat)) else ch)"

definition classMembers :: "(char \<times> char) list \<Rightarrow> char list" where
  "classMembers ranges =
     concat (map (\<lambda>(lo, hi). map char_of [of_char lo ..< Suc (of_char hi) :: nat]) ranges)"

fun atomMatches :: "bool \<Rightarrow> atom \<Rightarrow> char \<Rightarrow> bool" where
  "atomMatches ic (Literal a) ch = (canonicalize ic a = canonicalize ic ch)"
| "atomMatches ic (CharClass ranges) ch =
     list_ex (\<lambda>a. canonicalize ic a = canonicalize ic ch) (classMembers ranges)"

text \<open>
  Matching with a continuation \<open>k\<close> for the rest of the pattern, as the matchers of the
  language definition: a greedy repetition first tries to take one more character.
\<close>

fun repeatMatcher :: "(char \<Rightarrow> bool) \<Rightarrow> nat \<Rightarrow> (string \<Rightarrow> bool) \<Rightarrow> string \<Rightarrow> bool" where
  "repeatMatcher m n k [] = (n = 0 \<and> k [])"
| "repeatMatcher m n k (c # cs) =
     ((m c \<and> repeatMatcher m (n - 1) k cs) \<or> (n = 0 \<and> k (c # cs)))"

primrec piecesMatcher :: "bool \<Rightarrow> (atom \<times> quantifier) list \<Rightarrow> string \<Rightarrow> bool" where
  "piecesMatcher ic [] = (\<lambda>s. s = [])"
| "piecesMatcher ic (p # ps) =
     (case snd p of
        Once \<Rightarrow> (\<lambda>s. case s of [] \<Rightarrow> False
                      | c # cs \<Rightarrow> atomMatches ic (fst p) c \<and> piecesMatcher ic ps cs)
      | AtLeast n \<Rightarrow> repeatMatcher (atomMatches ic (fst p)) n (piecesMatcher ic ps))"

text \<open>\<^verbatim>\<open>RegExp.prototype.test\<close> on an expression without the \<^verbatim>\<open>g\<close> flag.\<close>

definition regex_test :: "regex \<Rightarrow> string \<Rightarrow> bool" where
  "regex_test r s = piecesMatcher (ignoreCase r) (pieces r) s"

section \<open>The form operations (src/index.ts)\<close>

text \<open>
  \<^verbatim>\<open>
  const field = (fieldName) => R.lens(
    R.find(R.propEq("name", fieldName)),
    (val, arr, idx = R.findIndex(R.propEq("name", fieldName), arr)) =>
      R.update(idx > -1 ? idx : R.length(arr), val, arr));
  \<close>
  A lens calls its setter with two arguments, so \<^verbatim>\<open>idx\<close> is always the default.
\<close>

definition field :: "string \<Rightarrow> (Field list, Field list, Field option, Field) lens" where
  "field fieldName =
     R_lens (R_find (R_propEq_name fieldName))
            (\<lambda>v arr. let idx = R_findIndex (R_propEq_name fieldName) arr
                      in R_update (if idx > - 1 then idx else R_length arr) v arr)"

definition newForm :: Form where
  "newForm = \<lparr>formName = [], formFields = []\<rparr>"

definition setName :: "string \<Rightarrow> Form \<Rightarrow> Form" where
  "setName nm form = R_set formNameLens nm form"

definition addField :: "FieldType \<Rightarrow> string \<Rightarrow> Form \<Rightarrow> Form" where
  "addField type nm form =
     R_over fieldsLens (R_append (emptyObject\<lparr>ftype := Some type, name := Some nm\<rparr>)) form"

definition getValue :: "string \<Rightarrow> Form \<Rightarrow> jsval option" where
  "getValue fieldName form =
     R_view (R_compose fieldsLens (R_compose (field fieldName) lensProp_value)) form"

definition setValue :: "string \<Rightarrow> jsval \<Rightarrow> Form \<Rightarrow> Form" where
  "setValue fieldName v form =
     R_set (R_compose fieldsLens (R_compose (field fieldName) lensProp_value)) (Some v) form"

definition setFieldOptions :: "string \<Rightarrow> string list \<Rightarrow> Form \<Rightarrow> Form" where
  "setFieldOptions fieldName opts form =
     R_set (R_compose fieldsLens (R_compose (field fieldName) lensProp_options)) (Some opts) form"

definition EMAIL_REGEX :: regex where
  "EMAIL_REGEX =
     \<lparr>pieces =
        [(CharClass [(CHR ''A'', CHR ''Z''), (CHR ''0'', CHR ''9''), (CHR ''.'', CHR ''.''),
                     (CHR ''_'', CHR ''_''), (CHR ''%'', CHR ''%''), (CHR ''+'', CHR ''+''),
                     (CHR ''-'', CHR ''-'')], AtLeast 1),
         (Literal CHR ''@'', Once),
         (CharClass [(CHR ''A'', CHR ''Z''), (CHR ''0'', CHR ''9''), (CHR ''.'', CHR ''.''),
                     (CHR ''-'', CHR ''-'')], AtLeast 1),
         (Literal CHR ''.'', Once),
         (CharClass [(CHR ''A'', CHR ''Z'')], AtLeast 2)],
      ignoreCase = True\<rparr>"

text \<open>
  \<^verbatim>\<open>test\<close> converts its argument to a string first; \<^verbatim>\<open>isEmail\<close> is a validation rule,
  so it receives \<^verbatim>\<open>field.value\<close>.
\<close>

definition ToString :: "jsval option \<Rightarrow> string" where
  "ToString v = (case v of None \<Rightarrow> ''undefined'' | Some (Str s) \<Rightarrow> s
                 | Some (Bool b) \<Rightarrow> (if b then ''true'' else ''false''))"

definition isEmail :: ValidationRule where
  "isEmail v = (if regex_test EMAIL_REGEX (ToString v) then None else Some ''Not a valid email'')"

definition addValidationRule :: "string \<Rightarrow> ValidationRule \<Rightarrow> Form \<Rightarrow> Form" where
  "addValidationRule fieldName rule form =
     R_over (R_compose fieldsLens (R_compose (field fieldName) lensProp_validationRules))
            (R_append_undef rule) form"

text \<open>
  \<^verbatim>\<open>.filter(Boolean)\<close> on the results of the rules: \<^verbatim>\<open>undefined\<close> and the empty string
  are the falsy results of a rule, every other string is kept.
\<close>

fun filter_Boolean :: "string option list \<Rightarrow> string list" where
  "filter_Boolean [] = []"
| "filter_Boolean (None # rs) = filter_Boolean rs"
| "filter_Boolean (Some s # rs) = (if s = [] then filter_Boolean rs else s # filter_Boolean rs)"

definition validate :: "Form \<Rightarrow> Form" where
  "validate form =
     form\<lparr>formFields :=
       map (\<lambda>fld. fld\<lparr>errors :=
              Some (filter_Boolean
                      (map (\<lambda>rule. rule (val fld))
                           (case validationRules fld of None \<Rightarrow> [] | Some rs \<Rightarrow> rs)))\<rparr>)
           (formFields form)\<rparr>"

definition addConditionalRule :: "string \<Rightarrow> ConditionalRule \<Rightarrow> Form \<Rightarrow> Form" where
  "addConditionalRule fieldName rule form =
     R_over (R_compose fieldsLens (R_compose (field fieldName) lensProp_conditionalRules))
            (R_append_undef rule) form"

text \<open>
  \<^verbatim>\<open>getValues\<close> folds the fields from the left into an object, writing the computed key
  \<^verbatim>\<open>[cur.name]\<close>; a computed key that is \<^verbatim>\<open>undefined\<close> is the string
  \<^verbatim>\<open>"undefined"\<close>.
\<close>

definition propertyKey :: "string option \<Rightarrow> string" where
  "propertyKey k = (case k of None \<Rightarrow> ''undefined'' | Some s \<Rightarrow> s)"

definition getValues :: "Form \<Rightarrow> Values" where
  "getValues form =
     foldl (\<lambda>prev cur. prev(propertyKey (name cur) \<mapsto> val cur)) Map.empty (formFields form)"

text \<open>
  \<^verbatim>\<open>field.conditionalRules ? field.conditionalRules.some(rule => rule(values)) : true\<close>:
  an array, also the empty one, is truthy, and \<^verbatim>\<open>some\<close> on the empty array is false.
\<close>

definition checkVisibility :: "Form \<Rightarrow> Form" where
  "checkVisibility form =
     (let values = getValues form in
      form\<lparr>formFields :=
        map (\<lambda>fld. fld\<lparr>visible :=
               Some (case conditionalRules fld of
                       Some rules \<Rightarrow> list_ex (\<lambda>rule. rule values) rules
                     | None \<Rightarrow> True)\<rparr>)
            (formFields form)\<rparr>)"

definition setDefaultVisibility :: "string \<Rightarrow> bool \<Rightarrow> Form \<Rightarrow> Form" where
  "setDefaultVisibility fieldName visibility form =
     R_set (R_compose fieldsLens (R_compose (field fieldName) lensProp_defaultVisibility))
           (Some visibility) form"

section \<open>The specification's vocabulary\<close>

text \<open>
  Section 3 of the specification: the absence of a message (\<^verbatim>\<open>undefined\<close> or empty) means
  that the rule passed. \<open>nonAbsentResults\<close> is the sequence of the non-absent results of
  all the rules, in their order; \<open>rulesOf\<close> reads a rule attribute that can be missing.
\<close>

definition absent :: "string option \<Rightarrow> bool" where
  "absent r = (r = None \<or> r = Some [])"

definition nonAbsentResults :: "ValidationRule list \<Rightarrow> jsval option \<Rightarrow> string list" where
  "nonAbsentResults rules v = map the (filter (\<lambda>r. \<not> absent r) (map (\<lambda>rule. rule v) rules))"

definition rulesOf :: "'a list option \<Rightarrow> 'a list" where
  "rulesOf rs = (case rs of None \<Rightarrow> [] | Some l \<Rightarrow> l)"

text \<open>The object built by \<^verbatim>\<open>getValues\<close>, as a function of the field sequence.\<close>

definition valuesOf :: "Field list \<Rightarrow> Values" where
  "valuesOf fs = foldl (\<lambda>prev cur. prev(propertyKey (name cur) \<mapsto> val cur)) Map.empty fs"

text \<open>
  Section 4.4 of the specification: the pattern
  \<^verbatim>\<open>^[A-Za-z0-9._%+-]+@[A-Za-z0-9.-]+\.[A-Za-z]{2,}$\<close>, matched case-insensitively:
  a non-empty local part, \<^verbatim>\<open>@\<close>, a non-empty domain, a dot, and at least two letters.
\<close>

definition isLetter :: "char \<Rightarrow> bool" where
  "isLetter c = (CHR ''A'' \<le> c \<and> c \<le> CHR ''Z'' \<or> CHR ''a'' \<le> c \<and> c \<le> CHR ''z'')"

definition isDigit :: "char \<Rightarrow> bool" where
  "isDigit c = (CHR ''0'' \<le> c \<and> c \<le> CHR ''9'')"

definition localPartChar :: "char \<Rightarrow> bool" where
  "localPartChar c = (isLetter c \<or> isDigit c \<or> c \<in> set ''._%+-'')"

definition domainChar :: "char \<Rightarrow> bool" where
  "domainChar c = (isLetter c \<or> isDigit c \<or> c \<in> set ''.-'')"

definition matchesEmailPattern :: "string \<Rightarrow> bool" where
  "matchesEmailPattern s =
     (\<exists>l d t. s = l @ ''@'' @ d @ ''.'' @ t
        \<and> l \<noteq> [] \<and> (\<forall>c\<in>set l. localPartChar c)
        \<and> d \<noteq> [] \<and> (\<forall>c\<in>set d. domainChar c)
        \<and> 2 \<le> length t \<and> (\<forall>c\<in>set t. isLetter c))"

section \<open>Example forms\<close>

definition duplicateForm :: Form where
  "duplicateForm =
     addField Text ''nick'' (setValue ''nick'' (Str ''first'') (addField Text ''nick'' newForm))"

definition nameForm :: Form where
  "nameForm =
     setValue ''family_name'' (Str ''Musterman'')
       (addField Text ''family_name''
          (setValue ''given_name'' (Str ''Max'') (addField Text ''given_name'' newForm)))"

definition ruledForm :: Form where
  "ruledForm =
     addValidationRule ''code'' (\<lambda>v. Some ''worse'')
       (addValidationRule ''code'' (\<lambda>v. Some [])
          (addValidationRule ''code'' (\<lambda>v. None)
             (addValidationRule ''code'' (\<lambda>v. Some ''bad'')
                (addField Text ''code'' newForm))))"

definition pinkRule :: ConditionalRule where
  "pinkRule values = (values ''favourite_colour'' = Some (Some (Str ''pink'')))"

definition colourForm :: Form where
  "colourForm =
     setValue ''favourite_colour'' (Str ''green'')
       (addConditionalRule ''favourite_shade_of_pink'' pinkRule
          (addField Text ''favourite_shade_of_pink''
             (addField Text ''favourite_colour'' newForm)))"

definition hiddenColourForm :: Form where
  "hiddenColourForm =
     colourForm\<lparr>formFields :=
       map (\<lambda>x. x\<lparr>defaultVisibility := Some False\<rparr>) (formFields colourForm)\<rparr>"

definition emptyRulesForm :: Form where
  "emptyRulesForm =
     \<lparr>formName = [],
      formFields = [emptyObject\<lparr>ftype := Some Text, name := Some ''a'', conditionalRules := Some []\<rparr>]\<rparr>"

section \<open>Field addressing\<close>

lemma findIndex_from_cases:
  "(findIndex_from k p xs = - 1 \<and> (\<forall>x\<in>set xs. \<not> p x) \<and> R_find p xs = None) \<or>
   (\<exists>i<length xs. findIndex_from k p xs = int (k + i) \<and> p (xs ! i) \<and> (\<forall>j<i. \<not> p (xs ! j))
       \<and> R_find p xs = Some (xs ! i))"
proof (induction xs arbitrary: k)
  case Nil
  show ?case by simp
next
  case (Cons x xs)
  show ?case
  proof (cases "p x")
    case True
    then show ?thesis by auto
  next
    case False
    from Cons.IH [of "Suc k"] show ?thesis
    proof
      assume "findIndex_from (Suc k) p xs = - 1 \<and> (\<forall>x\<in>set xs. \<not> p x) \<and> R_find p xs = None"
      with False show ?thesis by simp
    next
      assume "\<exists>i<length xs. findIndex_from (Suc k) p xs = int (Suc k + i) \<and> p (xs ! i) \<and>
                (\<forall>j<i. \<not> p (xs ! j)) \<and> R_find p xs = Some (xs ! i)"
      then obtain i where i: "i < length xs" "findIndex_from (Suc k) p xs = int (Suc k + i)"
        "p (xs ! i)" "\<forall>j<i. \<not> p (xs ! j)" "R_find p xs = Some (xs ! i)" by blast
      have "\<forall>j<Suc i. \<not> p ((x # xs) ! j)"
        using False i(4) by (auto simp: nth_Cons split: nat.splits)
      with False i have "Suc i < length (x # xs) \<and> findIndex_from k p (x # xs) = int (k + Suc i)
          \<and> p ((x # xs) ! Suc i) \<and> (\<forall>j<Suc i. \<not> p ((x # xs) ! j))
          \<and> R_find p (x # xs) = Some ((x # xs) ! Suc i)" by simp
      then show ?thesis by blast
    qed
  qed
qed

lemma R_findIndex_none:
  "\<forall>x\<in>set xs. \<not> p x \<Longrightarrow> R_findIndex p xs = - 1 \<and> R_find p xs = None"
  using findIndex_from_cases [of 0 p xs] nth_mem [of _ xs] unfolding R_findIndex_def
  by auto

lemma R_findIndex_first:
  assumes "i < length xs" "p (xs ! i)" "\<forall>j<i. \<not> p (xs ! j)"
  shows "R_findIndex p xs = int i \<and> R_find p xs = Some (xs ! i)"
proof -
  from findIndex_from_cases [of 0 p xs] assms(1,2)
  obtain i' where i': "i' < length xs" "findIndex_from 0 p xs = int i'" "p (xs ! i')"
    "\<forall>j<i'. \<not> p (xs ! j)" "R_find p xs = Some (xs ! i')"
    using nth_mem [of i xs] by auto
  have "i' = i" using assms i' by (meson linorder_neqE_nat)
  with i' show ?thesis by (simp add: R_findIndex_def)
qed

lemma first_index_exists:
  assumes "\<exists>x\<in>set xs. p x"
  shows "\<exists>i<length xs. p (xs ! i) \<and> (\<forall>j<i. \<not> p (xs ! j))"
  using findIndex_from_cases [of 0 p xs] assms by auto

lemma field_setter_missing:
  "\<forall>x\<in>set arr. name x \<noteq> Some n \<Longrightarrow> setter (field n) v arr = arr"
  using R_findIndex_none [of arr "R_propEq_name n"]
  by (simp add: field_def R_lens_def R_update_def R_adjust_def R_length_def R_propEq_name_def)

lemma field_setter_found:
  assumes "i < length arr" "name (arr ! i) = Some n" "\<forall>j<i. name (arr ! j) \<noteq> Some n"
  shows "setter (field n) v arr = arr[i := v]"
proof -
  have "R_findIndex (R_propEq_name n) arr = int i"
    using R_findIndex_first [of i arr "R_propEq_name n"] assms
    by (simp add: R_propEq_name_def)
  then show ?thesis using assms(1)
    by (simp add: field_def R_lens_def R_update_def R_adjust_def R_length_def Let_def)
qed

lemma field_getter_missing:
  "\<forall>x\<in>set arr. name x \<noteq> Some n \<Longrightarrow> getter (field n) arr = None"
  using R_findIndex_none [of arr "R_propEq_name n"]
  by (simp add: field_def R_lens_def R_propEq_name_def)

lemma field_getter_found:
  assumes "i < length arr" "name (arr ! i) = Some n" "\<forall>j<i. name (arr ! j) \<noteq> Some n"
  shows "getter (field n) arr = Some (arr ! i)"
  using R_findIndex_first [of i arr "R_propEq_name n"] assms
  by (simp add: field_def R_lens_def R_propEq_name_def)

lemma setValue_unfold:
  "setValue n v form =
     form\<lparr>formFields := setter (field n)
        ((copyOf (getter (field n) (formFields form)))\<lparr>val := Some v\<rparr>) (formFields form)\<rparr>"
  by (simp add: setValue_def R_set_def R_over_def R_compose_def R_lens_def fieldsLens_def
      lensProp_value_def)

lemma setFieldOptions_unfold:
  "setFieldOptions n opts form =
     form\<lparr>formFields := setter (field n)
        ((copyOf (getter (field n) (formFields form)))\<lparr>options := Some opts\<rparr>) (formFields form)\<rparr>"
  by (simp add: setFieldOptions_def R_set_def R_over_def R_compose_def R_lens_def fieldsLens_def
      lensProp_options_def)

lemma setDefaultVisibility_unfold:
  "setDefaultVisibility n b form =
     form\<lparr>formFields := setter (field n)
        ((copyOf (getter (field n) (formFields form)))\<lparr>defaultVisibility := Some b\<rparr>)
        (formFields form)\<rparr>"
  by (simp add: setDefaultVisibility_def R_set_def R_over_def R_compose_def R_lens_def
      fieldsLens_def lensProp_defaultVisibility_def)

lemma addValidationRule_unfold:
  "addValidationRule n rule form =
     form\<lparr>formFields := setter (field n)
        ((copyOf (getter (field n) (formFields form)))
           \<lparr>validationRules :=
              R_append_undef rule (case getter (field n) (formFields form) of
                                     None \<Rightarrow> None | Some x \<Rightarrow> validationRules x)\<rparr>)
        (formFields form)\<rparr>"
  by (simp add: addValidationRule_def R_over_def R_compose_def R_lens_def fieldsLens_def
      lensProp_validationRules_def)

lemma addConditionalRule_unfold:
  "addConditionalRule n rule form =
     form\<lparr>formFields := setter (field n)
        ((copyOf (getter (field n) (formFields form)))
           \<lparr>conditionalRules :=
              R_append_undef rule (case getter (field n) (formFields form) of
                                     None \<Rightarrow> None | Some x \<Rightarrow> conditionalRules x)\<rparr>)
        (formFields form)\<rparr>"
  by (simp add: addConditionalRule_def R_over_def R_compose_def R_lens_def fieldsLens_def
      lensProp_conditionalRules_def)

lemmas write_unfolds = setValue_unfold setFieldOptions_unfold setDefaultVisibility_unfold
  addValidationRule_unfold addConditionalRule_unfold

lemma write_missing_field:
  assumes "\<forall>x\<in>set (formFields form). name x \<noteq> Some n"
  shows "setValue n v form = form"
    and "setFieldOptions n opts form = form"
    and "setDefaultVisibility n b form = form"
    and "addValidationRule n vrule form = form"
    and "addConditionalRule n crule form = form"
  using assms by (simp_all add: write_unfolds field_setter_missing)

lemma write_found_field:
  assumes "i < length (formFields form)" "name (formFields form ! i) = Some n"
    "\<forall>j<i. name (formFields form ! j) \<noteq> Some n"
  shows "setValue n v form =
           form\<lparr>formFields := (formFields form)[i := (formFields form ! i)\<lparr>val := Some v\<rparr>]\<rparr>"
    and "setFieldOptions n opts form =
           form\<lparr>formFields := (formFields form)[i := (formFields form ! i)\<lparr>options := Some opts\<rparr>]\<rparr>"
    and "setDefaultVisibility n b form =
           form\<lparr>formFields :=
             (formFields form)[i := (formFields form ! i)\<lparr>defaultVisibility := Some b\<rparr>]\<rparr>"
    and "addValidationRule n vrule form =
           form\<lparr>formFields := (formFields form)[i := (formFields form ! i)
             \<lparr>validationRules := R_append_undef vrule (validationRules (formFields form ! i))\<rparr>]\<rparr>"
    and "addConditionalRule n crule form =
           form\<lparr>formFields := (formFields form)[i := (formFields form ! i)
             \<lparr>conditionalRules := R_append_undef crule (conditionalRules (formFields form ! i))\<rparr>]\<rparr>"
  using assms
  by (simp_all add: write_unfolds field_setter_found [of i _ n] field_getter_found [of i _ n]
      copyOf_def)

lemma getValue_unfold:
  "getValue n form = (case getter (field n) (formFields form) of None \<Rightarrow> None | Some x \<Rightarrow> val x)"
  by (simp add: getValue_def R_view_def R_compose_def R_lens_def fieldsLens_def lensProp_value_def)

lemma addField_unfold:
  "addField t nm form =
     form\<lparr>formFields := formFields form @ [emptyObject\<lparr>ftype := Some t, name := Some nm\<rparr>]\<rparr>"
  by (simp add: addField_def R_over_def fieldsLens_def R_lens_def R_append_def)

section \<open>The two passes\<close>

lemma filter_Boolean_eq:
  "filter_Boolean rs = map the (filter (\<lambda>r. \<not> absent r) rs)"
  by (induction rs rule: filter_Boolean.induct) (simp_all add: absent_def)

lemma validate_fields:
  "formFields (validate form) =
     map (\<lambda>fld. fld\<lparr>errors := Some (nonAbsentResults (rulesOf (validationRules fld)) (val fld))\<rparr>)
         (formFields form)"
  by (simp add: validate_def nonAbsentResults_def filter_Boolean_eq rulesOf_def)

lemma checkVisibility_fields:
  "formFields (checkVisibility form) =
     map (\<lambda>fld. fld\<lparr>visible := Some (case conditionalRules fld of
                                        None \<Rightarrow> True
                                      | Some rules \<Rightarrow> \<exists>rule\<in>set rules. rule (getValues form))\<rparr>)
         (formFields form)"
  by (simp add: checkVisibility_def Let_def list_ex_iff cong: option.case_cong)

lemma getValues_map:
  assumes "\<And>x. x \<in> set xs \<Longrightarrow> name (g x) = name x \<and> val (g x) = val x"
  shows "foldl (\<lambda>prev cur. prev(propertyKey (name cur) \<mapsto> val cur)) m (map g xs)
       = foldl (\<lambda>prev cur. prev(propertyKey (name cur) \<mapsto> val cur)) m xs"
  using assms by (induction xs arbitrary: m) simp_all

lemma getValues_validate: "getValues (validate form) = getValues form"
  by (simp add: getValues_def validate_def getValues_map)

lemma getValues_checkVisibility: "getValues (checkVisibility form) = getValues form"
  by (simp add: getValues_def checkVisibility_def Let_def getValues_map)

lemma validate_idem: "validate (validate form) = validate form"
  by (simp add: validate_def)

lemma checkVisibility_idem: "checkVisibility (checkVisibility form) = checkVisibility form"
proof -
  have "formFields (checkVisibility (checkVisibility form)) = formFields (checkVisibility form)"
    unfolding checkVisibility_fields [of "checkVisibility form"] getValues_checkVisibility
    by (simp add: checkVisibility_fields)
  moreover have "checkVisibility f = f\<lparr>formFields := formFields (checkVisibility f)\<rparr>" for f
    by (simp add: checkVisibility_def Let_def)
  from this [of "checkVisibility form"]
  have "checkVisibility (checkVisibility form)
      = (checkVisibility form)\<lparr>formFields := formFields (checkVisibility (checkVisibility form))\<rparr>" .
  ultimately show ?thesis by simp
qed

lemma getValues_valuesOf: "getValues form = valuesOf (formFields form)"
  by (simp add: getValues_def valuesOf_def)

lemma valuesOf_snoc: "valuesOf (fs @ [x]) = (valuesOf fs)(propertyKey (name x) \<mapsto> val x)"
  by (simp add: valuesOf_def)

lemma valuesOf_Nil: "valuesOf [] = Map.empty"
  by (simp add: valuesOf_def)

lemma dom_snoc: "dom (valuesOf (fs @ [x])) = insert (propertyKey (name x)) (dom (valuesOf fs))"
  unfolding valuesOf_snoc by simp

lemma dom_valuesOf: "dom (valuesOf fs) = (\<lambda>x. propertyKey (name x)) ` set fs"
proof (induction fs rule: rev_induct)
  case Nil
  show ?case by (simp add: valuesOf_Nil)
next
  case (snoc x fs)
  show ?case unfolding dom_snoc snoc.IH by simp
qed

lemma valuesOf_last_wins:
  assumes "i < length fs"
    and "\<forall>j<length fs. i < j \<longrightarrow> propertyKey (name (fs ! j)) \<noteq> propertyKey (name (fs ! i))"
  shows "valuesOf fs (propertyKey (name (fs ! i))) = Some (val (fs ! i))"
  using assms
proof (induction fs rule: rev_induct)
  case Nil
  then show ?case by simp
next
  case (snoc x fs)
  show ?case
  proof (cases "i < length fs")
    case True
    have later: "\<forall>j<length fs. i < j \<longrightarrow>
        propertyKey (name (fs ! j)) \<noteq> propertyKey (name (fs ! i))"
    proof (intro allI impI)
      fix j assume j: "j < length fs" "i < j"
      with snoc.prems(2) [rule_format, of j] have "propertyKey (name ((fs @ [x]) ! j))
          \<noteq> propertyKey (name ((fs @ [x]) ! i))" by simp
      with j True show "propertyKey (name (fs ! j)) \<noteq> propertyKey (name (fs ! i))"
        by (simp add: nth_append)
    qed
    from snoc.prems(2) [rule_format, of "length fs"] True
    have "propertyKey (name ((fs @ [x]) ! length fs))
          \<noteq> propertyKey (name ((fs @ [x]) ! i))" by simp
    with True have "propertyKey (name x) \<noteq> propertyKey (name (fs ! i))"
      by (simp add: nth_append)
    with snoc.IH [OF True later] True show ?thesis
      by (simp add: valuesOf_snoc nth_append)
  next
    case False
    with snoc.prems(1) have "i = length fs" by simp
    then show ?thesis by (simp add: valuesOf_snoc)
  qed
qed

lemma valuesOf_cong:
  "list_all2 (\<lambda>x y. name x = name y \<and> val x = val y) fs gs \<Longrightarrow> valuesOf fs = valuesOf gs"
proof -
  have "list_all2 (\<lambda>x y. name x = name y \<and> val x = val y) fs gs \<Longrightarrow>
      foldl (\<lambda>prev cur. prev(propertyKey (name cur) \<mapsto> val cur)) m fs
    = foldl (\<lambda>prev cur. prev(propertyKey (name cur) \<mapsto> val cur)) m gs" for m
    by (induction fs gs arbitrary: m rule: list_all2_induct) simp_all
  then show "list_all2 (\<lambda>x y. name x = name y \<and> val x = val y) fs gs \<Longrightarrow> valuesOf fs = valuesOf gs"
    by (simp add: valuesOf_def)
qed

lemma same_but_defaultVisibility:
  assumes "x\<lparr>defaultVisibility := None\<rparr> = y\<lparr>defaultVisibility := None\<rparr>"
  shows "name x = name y" "val x = val y" "conditionalRules x = conditionalRules y"
proof -
  have "name (x\<lparr>defaultVisibility := None\<rparr>) = name (y\<lparr>defaultVisibility := None\<rparr>)"
    "val (x\<lparr>defaultVisibility := None\<rparr>) = val (y\<lparr>defaultVisibility := None\<rparr>)"
    "conditionalRules (x\<lparr>defaultVisibility := None\<rparr>)
       = conditionalRules (y\<lparr>defaultVisibility := None\<rparr>)"
    using assms by simp_all
  then show "name x = name y" "val x = val y" "conditionalRules x = conditionalRules y"
    by simp_all
qed

lemma checkVisibility_ignores_defaultVisibility:
  assumes "list_all2 (\<lambda>x y. x\<lparr>defaultVisibility := None\<rparr> = y\<lparr>defaultVisibility := None\<rparr>)
             (formFields f) (formFields g)"
  shows "map visible (formFields (checkVisibility f)) = map visible (formFields (checkVisibility g))"
proof -
  have "list_all2 (\<lambda>x y. name x = name y \<and> val x = val y) (formFields f) (formFields g)"
    using assms by (rule list_all2_mono) (blast dest: same_but_defaultVisibility)
  then have vals: "getValues f = getValues g"
    by (simp add: getValues_valuesOf valuesOf_cong)
  have "list_all2 (\<lambda>x y. conditionalRules x = conditionalRules y) (formFields f) (formFields g)"
    using assms by (rule list_all2_mono) (blast dest: same_but_defaultVisibility)
  then have "map conditionalRules (formFields f) = map conditionalRules (formFields g)"
    by (induction rule: list_all2_induct) simp_all
  then have "map h (map conditionalRules (formFields f))
           = map h (map conditionalRules (formFields g))" for h :: "ConditionalRule list option \<Rightarrow> bool option"
    by (rule arg_cong)
  from this [of "\<lambda>c. Some (case c of None \<Rightarrow> True
                              | Some rules \<Rightarrow> \<exists>rule\<in>set rules. rule (getValues g))"]
  show ?thesis
    unfolding checkVisibility_fields vals by (simp add: comp_def)
qed

lemma setDefaultVisibility_related:
  "list_all2 (\<lambda>x y. x\<lparr>defaultVisibility := None\<rparr> = y\<lparr>defaultVisibility := None\<rparr>)
     (formFields (setDefaultVisibility n b f)) (formFields f)"
proof (cases "\<exists>x\<in>set (formFields f). name x = Some n")
  case False
  then have "setDefaultVisibility n b f = f" by (simp add: write_missing_field)
  then show ?thesis by (simp add: list_all2_same)
next
  case True
  then obtain i where i: "i < length (formFields f)" "name (formFields f ! i) = Some n"
    "\<forall>j<i. name (formFields f ! j) \<noteq> Some n"
    using first_index_exists [of "formFields f" "\<lambda>x. name x = Some n"] by blast
  show ?thesis
    unfolding write_found_field(3) [OF i] using i(1)
    by (auto simp: list_all2_conv_all_nth nth_list_update)
qed

section \<open>The email rule\<close>

lemma repeatMatcher_iff:
  "repeatMatcher m n k s \<longleftrightarrow>
     (\<exists>u v. s = u @ v \<and> n \<le> length u \<and> (\<forall>c\<in>set u. m c) \<and> k v)"
proof (induction s arbitrary: n)
  case Nil
  show ?case by auto
next
  case (Cons c cs)
  show ?case
  proof
    assume "repeatMatcher m n k (c # cs)"
    then consider "m c" "repeatMatcher m (n - 1) k cs" | "n = 0" "k (c # cs)" by auto
    then show "\<exists>u v. c # cs = u @ v \<and> n \<le> length u \<and> (\<forall>c\<in>set u. m c) \<and> k v"
    proof cases
      case 1
      then obtain u v where "cs = u @ v" "n - 1 \<le> length u" "\<forall>c\<in>set u. m c" "k v"
        using Cons.IH by blast
      with 1(1) have "c # cs = (c # u) @ v \<and> n \<le> length (c # u) \<and> (\<forall>c\<in>set (c # u). m c) \<and> k v"
        by auto
      then show ?thesis by blast
    next
      case 2
      then have "c # cs = [] @ (c # cs) \<and> n \<le> length ([] :: string)
          \<and> (\<forall>c\<in>set ([] :: string). m c) \<and> k (c # cs)" by simp
      then show ?thesis by blast
    qed
  next
    assume "\<exists>u v. c # cs = u @ v \<and> n \<le> length u \<and> (\<forall>c\<in>set u. m c) \<and> k v"
    then obtain u v where uv: "c # cs = u @ v" "n \<le> length u" "\<forall>c\<in>set u. m c" "k v" by blast
    show "repeatMatcher m n k (c # cs)"
    proof (cases u)
      case Nil
      with uv have "n = 0" "k (c # cs)" by simp_all
      then show ?thesis by simp
    next
      case (Cons a u')
      with uv have "cs = u' @ v \<and> n - 1 \<le> length u' \<and> (\<forall>c\<in>set u'. m c) \<and> k v" "m c"
        by auto
      then have "repeatMatcher m (n - 1) k cs" using Cons.IH by blast
      with \<open>m c\<close> show ?thesis by simp
    qed
  qed
qed

lemma set_chars_between:
  "set (map char_of [of_char lo ..< Suc (of_char hi) :: nat]) = {a. lo \<le> a \<and> a \<le> hi}"
proof (rule set_eqI)
  fix a :: char
  have "a \<in> char_of ` {of_char lo ..< Suc (of_char hi) :: nat}
      \<longleftrightarrow> (of_char lo :: nat) \<le> of_char a \<and> (of_char a :: nat) \<le> of_char hi"
  proof
    assume "a \<in> char_of ` {of_char lo ..< Suc (of_char hi) :: nat}"
    then obtain n :: nat where n: "a = char_of n" "of_char lo \<le> n" "n \<le> of_char hi" by auto
    have "(of_char hi :: nat) < 256" by simp
    with n(3) have "n < 256" by (rule le_less_trans)
    with n show "(of_char lo :: nat) \<le> of_char a \<and> (of_char a :: nat) \<le> of_char hi" by simp
  next
    assume "(of_char lo :: nat) \<le> of_char a \<and> (of_char a :: nat) \<le> of_char hi"
    then have "of_char a \<in> {of_char lo ..< Suc (of_char hi) :: nat}" by simp
    then have "char_of (of_char a :: nat) \<in> char_of ` {of_char lo ..< Suc (of_char hi) :: nat}"
      by (rule imageI)
    then show "a \<in> char_of ` {of_char lo ..< Suc (of_char hi) :: nat}" by simp
  qed
  then show "a \<in> set (map char_of [of_char lo ..< Suc (of_char hi) :: nat])
      \<longleftrightarrow> a \<in> {a. lo \<le> a \<and> a \<le> hi}"
    by (simp only: set_map set_upt less_eq_char_def mem_Collect_eq)
qed

lemma set_classMembers:
  "set (classMembers ranges) = {a. \<exists>(lo, hi)\<in>set ranges. lo \<le> a \<and> a \<le> hi}"
proof (induction ranges)
  case Nil
  show ?case by (simp add: classMembers_def)
next
  case (Cons r rs)
  obtain lo hi where r: "r = (lo, hi)" by (cases r)
  have "classMembers (r # rs) = map char_of [of_char lo ..< Suc (of_char hi) :: nat] @ classMembers rs"
    unfolding classMembers_def r by (simp del: upt_Suc)
  then have "set (classMembers (r # rs)) = {a. lo \<le> a \<and> a \<le> hi} \<union> set (classMembers rs)"
    by (simp only: set_append set_chars_between)
  with Cons.IH r show ?case by auto
qed

lemma canonicalize_upper:
  "canonicalize True c =
     (if CHR ''a'' \<le> c \<and> c \<le> CHR ''z'' then char_of (of_char c - (32::nat)) else c)"
  by (simp add: canonicalize_def)

lemma canonicalize_cases:
  obtains "CHR ''a'' \<le> c" "c \<le> CHR ''z''" "CHR ''A'' \<le> canonicalize True c"
    "canonicalize True c \<le> CHR ''Z''" "of_char (canonicalize True c) + (32::nat) = of_char c"
  | "\<not> (CHR ''a'' \<le> c \<and> c \<le> CHR ''z'')" "canonicalize True c = c"
proof (cases "CHR ''a'' \<le> c \<and> c \<le> CHR ''z''")
  case True
  then have r: "(97::nat) \<le> of_char c" "of_char c \<le> (122::nat)"
    by (simp_all add: less_eq_char_def)
  then have "of_char (canonicalize True c) = (of_char c - 32 :: nat)"
    using True by (simp add: canonicalize_upper)
  with r True that(1) show thesis by (simp add: less_eq_char_def)
next
  case False
  with that(2) show thesis by (simp add: canonicalize_upper)
qed

lemma class_without_lowercase:
  assumes "\<forall>(lo, hi)\<in>set rs. hi < CHR ''a''"
  shows "atomMatches True (CharClass rs) c
     \<longleftrightarrow> (\<exists>(lo, hi)\<in>set rs. lo \<le> canonicalize True c \<and> canonicalize True c \<le> hi)"
proof -
  have fixed: "canonicalize True a = a" if "(lo, hi) \<in> set rs" "a \<le> hi" for a lo hi
  proof -
    from assms that(1) have "hi < CHR ''a''" by blast
    with that(2) have "\<not> CHR ''a'' \<le> a" by simp
    then show ?thesis by (simp add: canonicalize_upper)
  qed
  have "atomMatches True (CharClass rs) c
      \<longleftrightarrow> (\<exists>a. (\<exists>(lo, hi)\<in>set rs. lo \<le> a \<and> a \<le> hi) \<and> canonicalize True a = canonicalize True c)"
    by (simp add: list_ex_iff set_classMembers Bex_def del: less_eq_char_simp)
  also have "\<dots> \<longleftrightarrow> (\<exists>(lo, hi)\<in>set rs. lo \<le> canonicalize True c \<and> canonicalize True c \<le> hi)"
  proof
    assume "\<exists>a. (\<exists>(lo, hi)\<in>set rs. lo \<le> a \<and> a \<le> hi) \<and> canonicalize True a = canonicalize True c"
    then obtain a lo hi where a: "(lo, hi) \<in> set rs" "lo \<le> a" "a \<le> hi"
      "canonicalize True a = canonicalize True c" by blast
    with fixed [OF a(1,3)] have "lo \<le> canonicalize True c \<and> canonicalize True c \<le> hi" by simp
    with a(1) show "\<exists>(lo, hi)\<in>set rs. lo \<le> canonicalize True c \<and> canonicalize True c \<le> hi"
      by blast
  next
    assume "\<exists>(lo, hi)\<in>set rs. lo \<le> canonicalize True c \<and> canonicalize True c \<le> hi"
    then obtain lo hi where r: "(lo, hi) \<in> set rs" "lo \<le> canonicalize True c"
      "canonicalize True c \<le> hi" by blast
    from fixed [OF r(1,3)] r
    have "(\<exists>(lo, hi)\<in>set rs. lo \<le> canonicalize True c \<and> canonicalize True c \<le> hi)
        \<and> canonicalize True (canonicalize True c) = canonicalize True c" by blast
    then show "\<exists>a. (\<exists>(lo, hi)\<in>set rs. lo \<le> a \<and> a \<le> hi)
        \<and> canonicalize True a = canonicalize True c" by blast
  qed
  finally show ?thesis .
qed

lemma letter_class:
  "atomMatches True (CharClass [(CHR ''A'', CHR ''Z'')]) c \<longleftrightarrow> isLetter c"
proof -
  have "atomMatches True (CharClass [(CHR ''A'', CHR ''Z'')]) c
      \<longleftrightarrow> CHR ''A'' \<le> canonicalize True c \<and> canonicalize True c \<le> CHR ''Z''"
    by (subst class_without_lowercase) simp_all
  also have "\<dots> \<longleftrightarrow> isLetter c"
    by (cases c rule: canonicalize_cases) (auto simp: isLetter_def less_eq_char_def)
  finally show ?thesis .
qed

lemma char_between_same: "a \<le> c \<and> c \<le> a \<longleftrightarrow> c = a" for a c :: char
  by auto

lemma localPart_class:
  "atomMatches True
     (CharClass [(CHR ''A'', CHR ''Z''), (CHR ''0'', CHR ''9''), (CHR ''.'', CHR ''.''),
                 (CHR ''_'', CHR ''_''), (CHR ''%'', CHR ''%''), (CHR ''+'', CHR ''+''),
                 (CHR ''-'', CHR ''-'')]) c
   \<longleftrightarrow> localPartChar c"
proof -
  have "atomMatches True
     (CharClass [(CHR ''A'', CHR ''Z''), (CHR ''0'', CHR ''9''), (CHR ''.'', CHR ''.''),
                 (CHR ''_'', CHR ''_''), (CHR ''%'', CHR ''%''), (CHR ''+'', CHR ''+''),
                 (CHR ''-'', CHR ''-'')]) c
      \<longleftrightarrow> (CHR ''A'' \<le> canonicalize True c \<and> canonicalize True c \<le> CHR ''Z'')
        \<or> (CHR ''0'' \<le> canonicalize True c \<and> canonicalize True c \<le> CHR ''9'')
        \<or> canonicalize True c = CHR ''.'' \<or> canonicalize True c = CHR ''_''
        \<or> canonicalize True c = CHR ''%'' \<or> canonicalize True c = CHR ''+''
        \<or> canonicalize True c = CHR ''-''"
    by (subst class_without_lowercase) (simp_all add: char_between_same)
  also have "\<dots> \<longleftrightarrow> localPartChar c"
  proof (cases c rule: canonicalize_cases)
    case 1
    then show ?thesis by (simp add: localPartChar_def isLetter_def)
  next
    case 2
    then show ?thesis by (auto simp: localPartChar_def isLetter_def isDigit_def)
  qed
  finally show ?thesis .
qed

lemma domain_class:
  "atomMatches True
     (CharClass [(CHR ''A'', CHR ''Z''), (CHR ''0'', CHR ''9''), (CHR ''.'', CHR ''.''),
                 (CHR ''-'', CHR ''-'')]) c
   \<longleftrightarrow> domainChar c"
proof -
  have "atomMatches True
     (CharClass [(CHR ''A'', CHR ''Z''), (CHR ''0'', CHR ''9''), (CHR ''.'', CHR ''.''),
                 (CHR ''-'', CHR ''-'')]) c
      \<longleftrightarrow> (CHR ''A'' \<le> canonicalize True c \<and> canonicalize True c \<le> CHR ''Z'')
        \<or> (CHR ''0'' \<le> canonicalize True c \<and> canonicalize True c \<le> CHR ''9'')
        \<or> canonicalize True c = CHR ''.'' \<or> canonicalize True c = CHR ''-''"
    by (subst class_without_lowercase) (simp_all add: char_between_same)
  also have "\<dots> \<longleftrightarrow> domainChar c"
  proof (cases c rule: canonicalize_cases)
    case 1
    then show ?thesis by (simp add: domainChar_def isLetter_def)
  next
    case 2
    then show ?thesis by (auto simp: domainChar_def isLetter_def isDigit_def)
  qed
  finally show ?thesis .
qed

lemma literal_not_letter:
  assumes "a < CHR ''A''"
  shows "atomMatches True (Literal a) c \<longleftrightarrow> c = a"
proof -
  from assms have "\<not> CHR ''a'' \<le> a"
    by (simp add: less_eq_char_def less_char_def)
  then have a: "canonicalize True a = a" by (simp add: canonicalize_upper)
  show ?thesis
  proof (cases c rule: canonicalize_cases)
    case 1
    from assms 1(3) have "canonicalize True c \<noteq> a" by auto
    moreover from \<open>\<not> CHR ''a'' \<le> a\<close> 1(1) have "c \<noteq> a" by auto
    ultimately show ?thesis using a by simp
  next
    case 2
    with a show ?thesis by auto
  qed
qed

lemma once_iff:
  "(case s of [] \<Rightarrow> False | c # cs \<Rightarrow> c = a \<and> K cs) \<longleftrightarrow> (\<exists>cs. s = a # cs \<and> K cs)"
  by (cases s) auto

lemma regex_test_EMAIL_REGEX:
  "regex_test EMAIL_REGEX s \<longleftrightarrow> matchesEmailPattern s"
proof -
  have "regex_test EMAIL_REGEX s \<longleftrightarrow>
      (\<exists>l v. s = l @ v \<and> 1 \<le> length l \<and> (\<forall>c\<in>set l. localPartChar c) \<and>
        (\<exists>cs. v = CHR ''@'' # cs \<and>
          (\<exists>d w. cs = d @ w \<and> 1 \<le> length d \<and> (\<forall>c\<in>set d. domainChar c) \<and>
            (\<exists>cs'. w = CHR ''.'' # cs' \<and>
              (\<exists>t z. cs' = t @ z \<and> 2 \<le> length t \<and> (\<forall>c\<in>set t. isLetter c) \<and> z = [])))))"
    unfolding regex_test_def EMAIL_REGEX_def
    by (simp add: repeatMatcher_iff localPart_class domain_class letter_class
        literal_not_letter once_iff del: atomMatches.simps)
  also have "\<dots> \<longleftrightarrow> matchesEmailPattern s"
    unfolding matchesEmailPattern_def
  proof
    assume "\<exists>l v. s = l @ v \<and> 1 \<le> length l \<and> (\<forall>c\<in>set l. localPartChar c) \<and>
        (\<exists>cs. v = CHR ''@'' # cs \<and>
          (\<exists>d w. cs = d @ w \<and> 1 \<le> length d \<and> (\<forall>c\<in>set d. domainChar c) \<and>
            (\<exists>cs'. w = CHR ''.'' # cs' \<and>
              (\<exists>t z. cs' = t @ z \<and> 2 \<le> length t \<and> (\<forall>c\<in>set t. isLetter c) \<and> z = []))))"
    then obtain l d t where "s = l @ CHR ''@'' # d @ CHR ''.'' # t" "1 \<le> length l"
      "\<forall>c\<in>set l. localPartChar c" "1 \<le> length d" "\<forall>c\<in>set d. domainChar c"
      "2 \<le> length t" "\<forall>c\<in>set t. isLetter c"
      by auto
    then have "s = l @ ''@'' @ d @ ''.'' @ t \<and> l \<noteq> [] \<and> (\<forall>c\<in>set l. localPartChar c)
        \<and> d \<noteq> [] \<and> (\<forall>c\<in>set d. domainChar c) \<and> 2 \<le> length t \<and> (\<forall>c\<in>set t. isLetter c)"
      by auto
    then show "\<exists>l d t. s = l @ ''@'' @ d @ ''.'' @ t \<and> l \<noteq> [] \<and> (\<forall>c\<in>set l. localPartChar c)
        \<and> d \<noteq> [] \<and> (\<forall>c\<in>set d. domainChar c) \<and> 2 \<le> length t \<and> (\<forall>c\<in>set t. isLetter c)"
      by blast
  next
    assume "\<exists>l d t. s = l @ ''@'' @ d @ ''.'' @ t \<and> l \<noteq> [] \<and> (\<forall>c\<in>set l. localPartChar c)
        \<and> d \<noteq> [] \<and> (\<forall>c\<in>set d. domainChar c) \<and> 2 \<le> length t \<and> (\<forall>c\<in>set t. isLetter c)"
    then obtain l d t where p: "s = l @ ''@'' @ d @ ''.'' @ t" "l \<noteq> []"
      "\<forall>c\<in>set l. localPartChar c" "d \<noteq> []" "\<forall>c\<in>set d. domainChar c"
      "2 \<le> length t" "\<forall>c\<in>set t. isLetter c" by blast
    have t: "\<exists>t' z. t = t' @ z \<and> 2 \<le> length t' \<and> (\<forall>c\<in>set t'. isLetter c) \<and> z = []"
      using p(6,7) by simp
    have d: "\<exists>d' w. d @ CHR ''.'' # t = d' @ w \<and> 1 \<le> length d' \<and> (\<forall>c\<in>set d'. domainChar c) \<and>
            (\<exists>cs'. w = CHR ''.'' # cs' \<and>
              (\<exists>t z. cs' = t @ z \<and> 2 \<le> length t \<and> (\<forall>c\<in>set t. isLetter c) \<and> z = []))"
      using p(4,5) t by (intro exI [of _ d] exI [of _ "CHR ''.'' # t"]) (simp add: Suc_le_eq)
    show "\<exists>l v. s = l @ v \<and> 1 \<le> length l \<and> (\<forall>c\<in>set l. localPartChar c) \<and>
        (\<exists>cs. v = CHR ''@'' # cs \<and>
          (\<exists>d w. cs = d @ w \<and> 1 \<le> length d \<and> (\<forall>c\<in>set d. domainChar c) \<and>
            (\<exists>cs'. w = CHR ''.'' # cs' \<and>
              (\<exists>t z. cs' = t @ z \<and> 2 \<le> length t \<and> (\<forall>c\<in>set t. isLetter c) \<and> z = []))))"
      using p(1,2,3) d
      by (intro exI [of _ l] exI [of _ "CHR ''@'' # d @ CHR ''.'' # t"]) (simp add: Suc_le_eq)
  qed
  finally show ?thesis .
qed

lemma matches_ben: "matchesEmailPattern ''ben@example.com''"
proof -
  have "''ben@example.com'' = ''ben'' @ ''@'' @ ''example'' @ ''.'' @ ''com''
      \<and> ''ben'' \<noteq> [] \<and> (\<forall>c\<in>set ''ben''. localPartChar c)
      \<and> ''example'' \<noteq> [] \<and> (\<forall>c\<in>set ''example''. domainChar c)
      \<and> 2 \<le> length ''com'' \<and> (\<forall>c\<in>set ''com''. isLetter c)"
    by (simp add: localPartChar_def domainChar_def isLetter_def)
  then show ?thesis unfolding matchesEmailPattern_def by blast
qed

lemma no_at_no_match: "CHR ''@'' \<notin> set s \<Longrightarrow> \<not> matchesEmailPattern s"
  by (auto simp: matchesEmailPattern_def)

section \<open>The example forms, evaluated\<close>

lemmas api_defs = addField_unfold write_unfolds newForm_def field_def R_lens_def
  R_findIndex_def R_update_def R_adjust_def R_length_def R_propEq_name_def copyOf_def
  R_append_undef_def R_append_def emptyObject_def

lemma ruledForm_fields:
  "formFields ruledForm =
     [emptyObject\<lparr>ftype := Some Text, name := Some ''code'',
        validationRules := Some [\<lambda>v. Some ''bad'', \<lambda>v. None, \<lambda>v. Some [], \<lambda>v. Some ''worse'']\<rparr>]"
  by (simp add: ruledForm_def api_defs)

lemma nameForm_fields:
  "formFields nameForm =
     [emptyObject\<lparr>ftype := Some Text, name := Some ''given_name'', val := Some (Str ''Max'')\<rparr>,
      emptyObject\<lparr>ftype := Some Text, name := Some ''family_name'',
        val := Some (Str ''Musterman'')\<rparr>]"
  by (simp add: nameForm_def api_defs)

lemma duplicateForm_fields:
  "formFields duplicateForm =
     [emptyObject\<lparr>ftype := Some Text, name := Some ''nick'', val := Some (Str ''first'')\<rparr>,
      emptyObject\<lparr>ftype := Some Text, name := Some ''nick''\<rparr>]"
  by (simp add: duplicateForm_def api_defs)

lemma colourForm_fields:
  "formFields colourForm =
     [emptyObject\<lparr>ftype := Some Text, name := Some ''favourite_colour'',
        val := Some (Str ''green'')\<rparr>,
      emptyObject\<lparr>ftype := Some Text, name := Some ''favourite_shade_of_pink'',
        conditionalRules := Some [pinkRule]\<rparr>]"
  by (simp add: colourForm_def api_defs)

section \<open>The claims\<close>

text \<open>
  Claim C1: a name-addressed write (\<^verbatim>\<open>setValue\<close>, \<^verbatim>\<open>setFieldOptions\<close>,
  \<^verbatim>\<open>setDefaultVisibility\<close>, \<^verbatim>\<open>addValidationRule\<close>, \<^verbatim>\<open>addConditionalRule\<close>) on a form
  with no field of the given name appends the newly built field at the end. The setter of
  \<^verbatim>\<open>field\<close> selects the index \<^verbatim>\<open>R.length(arr)\<close> for that case, but \<^verbatim>\<open>R.update\<close> returns
  its list unchanged for an index outside the list: the write does not throw, the form
  comes back as it was, and the update is dropped. The theorem evaluates the five writes
  on forms without the field \<^verbatim>\<open>email\<close>; the second conjunct says that the result is not
  the form with \<^verbatim>\<open>{ value: "x" }\<close> appended.
\<close>

theorem C1_missing_field_write_is_dropped:
  "setValue ''email'' (Str ''x'') (addField Text ''given_name'' newForm)
     = addField Text ''given_name'' newForm
   \<and> formFields (setValue ''email'' (Str ''x'') (addField Text ''given_name'' newForm))
     \<noteq> formFields (addField Text ''given_name'' newForm) @ [emptyObject\<lparr>val := Some (Str ''x'')\<rparr>]
   \<and> setValue ''email'' (Str ''x'') newForm = newForm
   \<and> setFieldOptions ''email'' [''a''] newForm = newForm
   \<and> setDefaultVisibility ''email'' False newForm = newForm
   \<and> addValidationRule ''email'' (\<lambda>v. None) newForm = newForm
   \<and> addConditionalRule ''email'' (\<lambda>vs. True) newForm = newForm"
  by (simp add: write_unfolds addField_unfold newForm_def field_def R_lens_def R_findIndex_def
      R_update_def R_adjust_def R_length_def R_propEq_name_def emptyObject_def)

text \<open>
  Claim C2: \<^verbatim>\<open>validate\<close> keeps the number of fields, and the \<open>errors\<close> of each field are
  exactly the non-absent results of all the rules in \<open>validationRules\<close>, in attachment
  order, applied to the field's value (every rule runs, also after a failure; absent is
  \<^verbatim>\<open>undefined\<close> or empty, as in section 3 of the specification). A field with no rule,
  the attribute missing or the empty sequence, gets the empty sequence of errors.
\<close>

theorem C2_validate_collects_every_error:
  "length (formFields (validate form)) = length (formFields form)
   \<and> (\<forall>i<length (formFields form).
        errors (formFields (validate form) ! i)
          = Some (nonAbsentResults (rulesOf (validationRules (formFields form ! i)))
                                   (val (formFields form ! i)))
      \<and> (validationRules (formFields form ! i) = None
           \<or> validationRules (formFields form ! i) = Some []
         \<longrightarrow> errors (formFields (validate form) ! i) = Some []))"
  by (auto simp add: validate_fields nonAbsentResults_def rulesOf_def)

text \<open>
  Witness for C2: four rules, failing, passing, returning the empty message, failing.
  Both failures are reported, in attachment order.
\<close>

theorem C2_validate_collects_every_error_witness:
  "0 < length (formFields ruledForm)
   \<and> errors (formFields (validate ruledForm) ! 0) = Some [''bad'', ''worse'']"
proof -
  have h: "0 < length (formFields ruledForm)" by (simp add: ruledForm_fields)
  from C2_validate_collects_every_error [of ruledForm, THEN conjunct2, rule_format, OF h] h
  show ?thesis
    by (simp add: ruledForm_fields nonAbsentResults_def absent_def rulesOf_def emptyObject_def)
qed

text \<open>
  Claim C3 says that a field with no conditional rules is visible. A field whose
  \<open>conditionalRules\<close> is present and empty has no conditional rule, and
  \<^verbatim>\<open>checkVisibility\<close> gives it \<open>visible = false\<close>: the guard of the source tests whether
  the attribute is there, and \<^verbatim>\<open>some\<close> on the empty array is false.
\<close>

theorem C3_counterexample:
  "conditionalRules (formFields emptyRulesForm ! 0) = Some []
   \<and> visible (formFields (checkVisibility emptyRulesForm) ! 0) = Some False"
  by (simp add: emptyRulesForm_def checkVisibility_def emptyObject_def)

text \<open>
  Claim C3, amended: \<^verbatim>\<open>checkVisibility\<close> computes the value map once with
  \<^verbatim>\<open>getValues\<close> and keeps the number of fields; a field whose \<open>conditionalRules\<close>
  attribute is missing gets \<open>visible = true\<close>, and a field where it is present gets
  \<open>visible = true\<close> exactly when at least one of its rules returns true on that shared
  map (so \<open>false\<close> for the empty sequence).
\<close>

theorem C3_visibility_is_or_of_present_rules:
  "length (formFields (checkVisibility form)) = length (formFields form)
   \<and> (\<forall>i<length (formFields form).
        visible (formFields (checkVisibility form) ! i)
          = Some (case conditionalRules (formFields form ! i) of
                    None \<Rightarrow> True
                  | Some rules \<Rightarrow> \<exists>rule\<in>set rules. rule (getValues form)))"
  by (simp add: checkVisibility_fields)

text \<open>
  Witness for C3 (scenario D of the specification): the first field has no rule attribute
  and is visible; the second is visible only for the colour pink, and the colour is green.
\<close>

theorem C3_visibility_is_or_of_present_rules_witness:
  "1 < length (formFields colourForm)
   \<and> visible (formFields (checkVisibility colourForm) ! 0) = Some True
   \<and> visible (formFields (checkVisibility colourForm) ! 1) = Some False"
proof -
  have h: "1 < length (formFields colourForm)" "0 < length (formFields colourForm)"
    by (simp_all add: colourForm_fields)
  have v: "getValues colourForm ''favourite_colour'' = Some (Some (Str ''green''))"
    by (simp add: getValues_def colourForm_fields emptyObject_def propertyKey_def)
  from C3_visibility_is_or_of_present_rules [of colourForm, THEN conjunct2, rule_format, OF h(1)]
    C3_visibility_is_or_of_present_rules [of colourForm, THEN conjunct2, rule_format, OF h(2)]
    h(1) v
  show ?thesis
    by (simp add: colourForm_fields emptyObject_def pinkRule_def)
qed

text \<open>
  Claim C4: \<^verbatim>\<open>validate\<close> applied twice gives the same \<open>errors\<close> on every field as applied
  once, and \<^verbatim>\<open>checkVisibility\<close> applied twice the same \<open>visible\<close> flags as applied once;
  in fact the second application changes nothing at all. The rules are functions of the
  logic, hence pure.
\<close>

theorem C4_passes_are_idempotent:
  "map errors (formFields (validate (validate form))) = map errors (formFields (validate form))
   \<and> map visible (formFields (checkVisibility (checkVisibility form)))
       = map visible (formFields (checkVisibility form))
   \<and> validate (validate form) = validate form
   \<and> checkVisibility (checkVisibility form) = checkVisibility form"
  by (simp add: validate_idem checkVisibility_idem)

text \<open>Witness for C4: the two passes, applied twice to the example forms.\<close>

theorem C4_passes_are_idempotent_witness:
  "map errors (formFields (validate (validate ruledForm))) = [Some [''bad'', ''worse'']]
   \<and> map visible (formFields (checkVisibility (checkVisibility colourForm)))
       = [Some True, Some False]"
proof -
  have "map errors (formFields (validate ruledForm)) = [Some [''bad'', ''worse'']]"
    by (simp add: validate_def ruledForm_fields emptyObject_def)
  moreover have "getValues colourForm ''favourite_colour'' = Some (Some (Str ''green''))"
    by (simp add: getValues_def colourForm_fields emptyObject_def propertyKey_def)
  then have "map visible (formFields (checkVisibility colourForm)) = [Some True, Some False]"
    by (simp add: checkVisibility_def Let_def colourForm_fields emptyObject_def pinkRule_def)
  ultimately show ?thesis
    using C4_passes_are_idempotent [of ruledForm] C4_passes_are_idempotent [of colourForm]
    by simp
qed

text \<open>
  Claim C5: \<^verbatim>\<open>validate\<close> and \<^verbatim>\<open>checkVisibility\<close> only annotate. The form keeps its name,
  and the fields of the result are, position by position, the fields of the input with
  nothing but \<open>errors\<close> (for \<^verbatim>\<open>validate\<close>) or \<open>visible\<close> (for \<^verbatim>\<open>checkVisibility\<close>)
  changed; in particular their number and order are the same.
\<close>

theorem C5_passes_only_annotate:
  "formName (validate form) = formName form
   \<and> list_all2 (\<lambda>x y. y = x\<lparr>errors := errors y\<rparr>) (formFields form) (formFields (validate form))
   \<and> formName (checkVisibility form) = formName form
   \<and> list_all2 (\<lambda>x y. y = x\<lparr>visible := visible y\<rparr>)
        (formFields form) (formFields (checkVisibility form))"
  by (simp add: validate_def checkVisibility_def Let_def list_all2_map2 list_all2_same)

text \<open>Witness for C5: names and numbers of fields of the example forms after a pass.\<close>

theorem C5_passes_only_annotate_witness:
  "formName (validate ruledForm) = formName ruledForm
   \<and> length (formFields (validate ruledForm)) = 1
   \<and> formName (checkVisibility colourForm) = formName colourForm
   \<and> length (formFields (checkVisibility colourForm)) = 2"
proof -
  note a = C5_passes_only_annotate [of ruledForm] and b = C5_passes_only_annotate [of colourForm]
  from a have "length (formFields ruledForm) = length (formFields (validate ruledForm))"
    by (blast dest: list_all2_lengthD)
  moreover from b
  have "length (formFields colourForm) = length (formFields (checkVisibility colourForm))"
    by (blast dest: list_all2_lengthD)
  ultimately show ?thesis using a b
    by (simp add: ruledForm_fields colourForm_fields)
qed

text \<open>
  Claim C6: \<^verbatim>\<open>addField\<close> appends the field \<^verbatim>\<open>{ type, name }\<close> after all prior fields,
  which stay as they were. When the form has a field of the given name, each of the five
  name-addressed setters returns the field sequence with one position \<open>i\<close>, holding a
  field of that name, replaced by that field with the one attribute written; the names
  of the fields, hence their order, and every other position are unchanged.
\<close>

theorem C6_append_then_replace_in_place:
  "formFields (addField t nm form)
     = formFields form @ [emptyObject\<lparr>ftype := Some t, name := Some nm\<rparr>]
   \<and> formName (addField t nm form) = formName form
   \<and> ((\<exists>x\<in>set (formFields form). name x = Some n) \<longrightarrow>
        (\<exists>i<length (formFields form).
            name (formFields form ! i) = Some n
          \<and> formFields (setValue n v form)
              = (formFields form)[i := (formFields form ! i)\<lparr>val := Some v\<rparr>]
          \<and> formFields (setFieldOptions n opts form)
              = (formFields form)[i := (formFields form ! i)\<lparr>options := Some opts\<rparr>]
          \<and> formFields (setDefaultVisibility n b form)
              = (formFields form)[i := (formFields form ! i)\<lparr>defaultVisibility := Some b\<rparr>]
          \<and> formFields (addValidationRule n vrule form)
              = (formFields form)[i := (formFields form ! i)
                  \<lparr>validationRules :=
                     Some ((case validationRules (formFields form ! i) of
                              None \<Rightarrow> [] | Some rs \<Rightarrow> rs) @ [vrule])\<rparr>]
          \<and> formFields (addConditionalRule n crule form)
              = (formFields form)[i := (formFields form ! i)
                  \<lparr>conditionalRules :=
                     Some ((case conditionalRules (formFields form ! i) of
                              None \<Rightarrow> [] | Some rs \<Rightarrow> rs) @ [crule])\<rparr>]
          \<and> (\<forall>op \<in> {setValue n v, setFieldOptions n opts, setDefaultVisibility n b,
                      addValidationRule n vrule, addConditionalRule n crule}.
                map name (formFields (op form)) = map name (formFields form)
              \<and> (\<forall>j<length (formFields form). j \<noteq> i \<longrightarrow>
                    formFields (op form) ! j = formFields form ! j))))"
proof (intro conjI impI)
  assume "\<exists>x\<in>set (formFields form). name x = Some n"
  then obtain i where i: "i < length (formFields form)" "name (formFields form ! i) = Some n"
    "\<forall>j<i. name (formFields form ! j) \<noteq> Some n"
    using first_index_exists [of "formFields form" "\<lambda>x. name x = Some n"] by blast
  note w = write_found_field [OF i]
  have names: "map name ((formFields form)[i := y]) = map name (formFields form)"
    if "name y = Some n" for y
    using i(1,2) that by (simp add: map_update list_update_same_conv)
  show "\<exists>i<length (formFields form).
            name (formFields form ! i) = Some n
          \<and> formFields (setValue n v form)
              = (formFields form)[i := (formFields form ! i)\<lparr>val := Some v\<rparr>]
          \<and> formFields (setFieldOptions n opts form)
              = (formFields form)[i := (formFields form ! i)\<lparr>options := Some opts\<rparr>]
          \<and> formFields (setDefaultVisibility n b form)
              = (formFields form)[i := (formFields form ! i)\<lparr>defaultVisibility := Some b\<rparr>]
          \<and> formFields (addValidationRule n vrule form)
              = (formFields form)[i := (formFields form ! i)
                  \<lparr>validationRules :=
                     Some ((case validationRules (formFields form ! i) of
                              None \<Rightarrow> [] | Some rs \<Rightarrow> rs) @ [vrule])\<rparr>]
          \<and> formFields (addConditionalRule n crule form)
              = (formFields form)[i := (formFields form ! i)
                  \<lparr>conditionalRules :=
                     Some ((case conditionalRules (formFields form ! i) of
                              None \<Rightarrow> [] | Some rs \<Rightarrow> rs) @ [crule])\<rparr>]
          \<and> (\<forall>op \<in> {setValue n v, setFieldOptions n opts, setDefaultVisibility n b,
                      addValidationRule n vrule, addConditionalRule n crule}.
                map name (formFields (op form)) = map name (formFields form)
              \<and> (\<forall>j<length (formFields form). j \<noteq> i \<longrightarrow>
                    formFields (op form) ! j = formFields form ! j))"
    using i(1,2) by (intro exI [of _ i]) (simp add: w names R_append_undef_def R_append_def)
qed (simp_all add: addField_unfold)

text \<open>Witness for C6: a setter and \<^verbatim>\<open>addField\<close> on the two-field form of scenario E.\<close>

theorem C6_append_then_replace_in_place_witness:
  "(\<exists>x\<in>set (formFields nameForm). name x = Some ''given_name'')
   \<and> (\<exists>i<length (formFields nameForm).
         name (formFields nameForm ! i) = Some ''given_name''
       \<and> formFields (setValue ''given_name'' (Str ''Moritz'') nameForm)
           = (formFields nameForm)[i := (formFields nameForm ! i)\<lparr>val := Some (Str ''Moritz'')\<rparr>])
   \<and> formFields (addField Select ''colour'' nameForm)
       = formFields nameForm @ [emptyObject\<lparr>ftype := Some Select, name := Some ''colour''\<rparr>]"
proof -
  have h: "\<exists>x\<in>set (formFields nameForm). name x = Some ''given_name''"
    by (simp add: nameForm_fields emptyObject_def)
  note c = C6_append_then_replace_in_place [of Select "''colour''" nameForm "''given_name''"
      "Str ''Moritz''" "[]" True "\<lambda>v. None" "\<lambda>vs. True"]
  from c [THEN conjunct2, THEN conjunct2, THEN mp, OF h]
  have "\<exists>i<length (formFields nameForm).
         name (formFields nameForm ! i) = Some ''given_name''
       \<and> formFields (setValue ''given_name'' (Str ''Moritz'') nameForm)
           = (formFields nameForm)[i := (formFields nameForm ! i)\<lparr>val := Some (Str ''Moritz'')\<rparr>]"
    by blast
  with h c [THEN conjunct1] show ?thesis by blast
qed

text \<open>
  Claim C7: on a form whose fields all have a name (as the type \<^verbatim>\<open>Form\<close> requires), the
  keys of \<^verbatim>\<open>getValues\<close> are exactly the names of the fields, and a name is mapped to the
  value of the last field of that name: the value of a field, unless a later field has the
  same name and overwrites it.
\<close>

theorem C7_getValues_maps_names_to_values:
  assumes "\<forall>x\<in>set (formFields form). name x \<noteq> None"
  shows "dom (getValues form) = {n. \<exists>x\<in>set (formFields form). name x = Some n}
    \<and> (\<forall>i<length (formFields form). \<forall>n.
          name (formFields form ! i) = Some n
          \<and> (\<forall>j<length (formFields form). i < j \<longrightarrow> name (formFields form ! j) \<noteq> Some n)
          \<longrightarrow> getValues form n = Some (val (formFields form ! i)))"
proof (intro conjI allI impI)
  show "dom (getValues form) = {n. \<exists>x\<in>set (formFields form). name x = Some n}"
  proof -
    have key: "propertyKey (name x) = n \<longleftrightarrow> name x = Some n"
      if "x \<in> set (formFields form)" for x n
      using assms that by (cases "name x") (auto simp: propertyKey_def)
    have "(\<lambda>x. propertyKey (name x)) ` set (formFields form)
        = {n. \<exists>x\<in>set (formFields form). name x = Some n}"
    proof (rule set_eqI)
      fix n
      show "n \<in> (\<lambda>x. propertyKey (name x)) ` set (formFields form)
          \<longleftrightarrow> n \<in> {n. \<exists>x\<in>set (formFields form). name x = Some n}"
        using key by (simp add: image_iff) metis
    qed
    then show ?thesis by (simp add: getValues_valuesOf dom_valuesOf)
  qed
next
  fix i n
  assume i: "i < length (formFields form)"
    and n: "name (formFields form ! i) = Some n
          \<and> (\<forall>j<length (formFields form). i < j \<longrightarrow> name (formFields form ! j) \<noteq> Some n)"
  have "\<forall>j<length (formFields form). i < j \<longrightarrow>
      propertyKey (name (formFields form ! j)) \<noteq> propertyKey (name (formFields form ! i))"
  proof (intro allI impI)
    fix j assume j: "j < length (formFields form)" "i < j"
    with assms obtain m where "name (formFields form ! j) = Some m" using nth_mem by fastforce
    with n j show "propertyKey (name (formFields form ! j))
        \<noteq> propertyKey (name (formFields form ! i))"
      by (auto simp: propertyKey_def)
  qed
  from valuesOf_last_wins [OF i this] n show "getValues form n = Some (val (formFields form ! i))"
    by (simp add: getValues_valuesOf propertyKey_def)
qed

text \<open>Witness for C7 (scenario E of the specification).\<close>

theorem C7_getValues_maps_names_to_values_witness:
  "map name (formFields nameForm) = [Some ''given_name'', Some ''family_name'']
   \<and> dom (getValues nameForm) = {''given_name'', ''family_name''}
   \<and> getValues nameForm ''given_name'' = Some (Some (Str ''Max''))
   \<and> getValues nameForm ''family_name'' = Some (Some (Str ''Musterman''))"
proof -
  have h: "\<forall>x\<in>set (formFields nameForm). name x \<noteq> None"
    by (simp add: nameForm_fields emptyObject_def)
  note c = C7_getValues_maps_names_to_values [OF h]
  have "dom (getValues nameForm) = {''given_name'', ''family_name''}"
    unfolding c [THEN conjunct1] by (auto simp: nameForm_fields emptyObject_def)
  moreover have "getValues nameForm ''given_name'' = Some (Some (Str ''Max''))"
    using c [THEN conjunct2, rule_format, of 0 "''given_name''"]
    by (simp add: nameForm_fields emptyObject_def less_Suc_eq)
  moreover have "getValues nameForm ''family_name'' = Some (Some (Str ''Musterman''))"
    using c [THEN conjunct2, rule_format, of 1 "''family_name''"]
    by (simp add: nameForm_fields emptyObject_def)
  moreover have "map name (formFields nameForm) = [Some ''given_name'', Some ''family_name'']"
    by (simp add: nameForm_fields emptyObject_def)
  ultimately show ?thesis by blast
qed

text \<open>
  Claim C8: on a string, \<^verbatim>\<open>isEmail\<close> returns no message exactly when the string matches
  the pattern of the specification, and the message \<^verbatim>\<open>Not a valid email\<close> otherwise:
  the expression of the source, with the classes \<^verbatim>\<open>A-Z\<close> and the flag \<^verbatim>\<open>i\<close>, accepts the
  strings made of a non-empty local part, \<^verbatim>\<open>@\<close>, a non-empty domain, a dot and at least
  two letters. \<^verbatim>\<open>not_an_email\<close> gets the message, \<^verbatim>\<open>ben@example.com\<close> does not.
\<close>

theorem C8_isEmail_matches_pattern:
  "(isEmail (Some (Str s)) = None \<longleftrightarrow> matchesEmailPattern s)
   \<and> (isEmail (Some (Str s)) = Some ''Not a valid email'' \<longleftrightarrow> \<not> matchesEmailPattern s)
   \<and> isEmail (Some (Str ''not_an_email'')) = Some ''Not a valid email''
   \<and> isEmail (Some (Str ''ben@example.com'')) = None"
proof -
  have eq: "isEmail (Some (Str s)) =
      (if matchesEmailPattern s then None else Some ''Not a valid email'')" for s
    by (simp add: isEmail_def ToString_def regex_test_EMAIL_REGEX)
  have "\<not> matchesEmailPattern ''not_an_email''"
    by (rule no_at_no_match) simp
  with matches_ben show ?thesis by (simp add: eq)
qed

text \<open>
  Witness for C8: the matcher of the source evaluated on a shortest accepted address and
  on the same address with a one-letter last label.
\<close>

theorem C8_isEmail_matches_pattern_witness:
  "matchesEmailPattern ''a@b.cd'' \<and> isEmail (Some (Str ''a@b.cd'')) = None
   \<and> \<not> matchesEmailPattern ''a@b.c'' \<and> isEmail (Some (Str ''a@b.c'')) = Some ''Not a valid email''"
proof -
  have "isEmail (Some (Str ''a@b.cd'')) = None"
    by code_simp
  moreover have "isEmail (Some (Str ''a@b.c'')) = Some ''Not a valid email''"
    by code_simp
  ultimately show ?thesis
    using C8_isEmail_matches_pattern [of "''a@b.cd''"] C8_isEmail_matches_pattern [of "''a@b.c''"]
    by simp
qed

text \<open>
  Claim C9: two forms whose fields are, position by position, equal up to
  \<open>defaultVisibility\<close> get the same \<open>visible\<close> flags from \<^verbatim>\<open>checkVisibility\<close>, and
  \<^verbatim>\<open>checkVisibility\<close> after \<^verbatim>\<open>setDefaultVisibility\<close> gives the same flags as
  \<^verbatim>\<open>checkVisibility\<close> alone.
\<close>

theorem C9_checkVisibility_never_reads_defaultVisibility:
  "(list_all2 (\<lambda>x y. x\<lparr>defaultVisibility := None\<rparr> = y\<lparr>defaultVisibility := None\<rparr>)
       (formFields f) (formFields g)
     \<longrightarrow> map visible (formFields (checkVisibility f))
         = map visible (formFields (checkVisibility g)))
   \<and> map visible (formFields (checkVisibility (setDefaultVisibility n b f)))
       = map visible (formFields (checkVisibility f))"
  using checkVisibility_ignores_defaultVisibility [of f g]
    checkVisibility_ignores_defaultVisibility [OF setDefaultVisibility_related [of n b f]]
  by simp

text \<open>
  Witness for C9: the form of scenario D, and the same form with every field hidden by
  default.
\<close>

theorem C9_checkVisibility_never_reads_defaultVisibility_witness:
  "list_all2 (\<lambda>x y. x\<lparr>defaultVisibility := None\<rparr> = y\<lparr>defaultVisibility := None\<rparr>)
     (formFields colourForm) (formFields hiddenColourForm)
   \<and> map defaultVisibility (formFields colourForm) = [None, None]
   \<and> map defaultVisibility (formFields hiddenColourForm) = [Some False, Some False]
   \<and> map visible (formFields (checkVisibility colourForm))
       = map visible (formFields (checkVisibility hiddenColourForm))"
proof -
  have h: "list_all2 (\<lambda>x y. x\<lparr>defaultVisibility := None\<rparr> = y\<lparr>defaultVisibility := None\<rparr>)
     (formFields colourForm) (formFields hiddenColourForm)"
    by (simp add: hiddenColourForm_def list_all2_map2 list_all2_same)
  from C9_checkVisibility_never_reads_defaultVisibility [of colourForm hiddenColourForm,
      THEN conjunct1, THEN mp, OF h] h
  show ?thesis by (simp add: hiddenColourForm_def colourForm_fields emptyObject_def)
qed

text \<open>
  Claim C10: when the fields at positions \<open>i < j\<close> have the same name and \<open>i\<close> is the
  first position with that name, \<^verbatim>\<open>getValue\<close> returns the value of the field at \<open>i\<close>,
  and each of the five name-addressed writes replaces the field at \<open>i\<close> only: the field
  at \<open>j\<close>, as every position other than \<open>i\<close>, is unchanged.
\<close>

theorem C10_first_match_wins:
  assumes "i < j" "j < length (formFields form)"
    and "name (formFields form ! i) = Some n" "name (formFields form ! j) = Some n"
    and "\<forall>k<i. name (formFields form ! k) \<noteq> Some n"
  shows "getValue n form = val (formFields form ! i)
    \<and> formFields (setValue n v form)
        = (formFields form)[i := (formFields form ! i)\<lparr>val := Some v\<rparr>]
    \<and> formFields (setFieldOptions n opts form)
        = (formFields form)[i := (formFields form ! i)\<lparr>options := Some opts\<rparr>]
    \<and> formFields (setDefaultVisibility n b form)
        = (formFields form)[i := (formFields form ! i)\<lparr>defaultVisibility := Some b\<rparr>]
    \<and> formFields (addValidationRule n vrule form)
        = (formFields form)[i := (formFields form ! i)
            \<lparr>validationRules :=
               Some ((case validationRules (formFields form ! i) of
                        None \<Rightarrow> [] | Some rs \<Rightarrow> rs) @ [vrule])\<rparr>]
    \<and> formFields (addConditionalRule n crule form)
        = (formFields form)[i := (formFields form ! i)
            \<lparr>conditionalRules :=
               Some ((case conditionalRules (formFields form ! i) of
                        None \<Rightarrow> [] | Some rs \<Rightarrow> rs) @ [crule])\<rparr>]
    \<and> (\<forall>op \<in> {setValue n v, setFieldOptions n opts, setDefaultVisibility n b,
                addValidationRule n vrule, addConditionalRule n crule}.
          formFields (op form) ! j = formFields form ! j
        \<and> (\<forall>k<length (formFields form). k \<noteq> i \<longrightarrow>
              formFields (op form) ! k = formFields form ! k))"
proof -
  have i: "i < length (formFields form)" using assms(1,2) by simp
  note w = write_found_field [OF i assms(3,5)]
  have "getValue n form = val (formFields form ! i)"
    by (simp add: getValue_unfold field_getter_found [OF i assms(3,5)])
  then show ?thesis using assms(1,2)
    by (simp add: w R_append_undef_def R_append_def)
qed

text \<open>Witness for C10: a form with two fields named \<^verbatim>\<open>nick\<close>.\<close>

theorem C10_first_match_wins_witness:
  "name (formFields duplicateForm ! 0) = Some ''nick''
   \<and> name (formFields duplicateForm ! 1) = Some ''nick''
   \<and> getValue ''nick'' duplicateForm = Some (Str ''first'')
   \<and> formFields (setValue ''nick'' (Str ''new'') duplicateForm)
       = [(formFields duplicateForm ! 0)\<lparr>val := Some (Str ''new'')\<rparr>, formFields duplicateForm ! 1]"
proof -
  have h: "(0::nat) < 1" "1 < length (formFields duplicateForm)"
    "name (formFields duplicateForm ! 0) = Some ''nick''"
    "name (formFields duplicateForm ! 1) = Some ''nick''"
    "\<forall>k<0. name (formFields duplicateForm ! k) \<noteq> Some ''nick''"
    by (simp_all add: duplicateForm_fields emptyObject_def)
  from C10_first_match_wins [OF h, of "Str ''new''" "[]" True "\<lambda>v. None" "\<lambda>vs. True"] h(3,4)
  show ?thesis by (simp add: duplicateForm_fields emptyObject_def)
qed

end
